theory Spec2Isabelle
  imports Complex_Main
begin

section \<open>Detection service: overlap predicate and region of interest\<close>

text \<open>
  Bounding boxes are the 4-element sequences \<open>(x1, y1, x2, y2)\<close> of
  \<^verbatim>\<open>services/detection/app.py\<close>. The detector hands out Python floats and the
  configured region uses integer literals; both are read here as real numbers, so the
  arithmetic of the model is exact.
\<close>

type_synonym bbox = "real \<times> real \<times> real \<times> real"

definition ROIS :: "bbox list" where
  "ROIS = [(48, 34, 55, 36)]"

text \<open>
  \<^verbatim>\<open>boxes_overlap(boxA, boxB, iou_threshold=0.1)\<close>: the body never reads
  \<open>iou_threshold\<close>; the parameter is kept so that the model has the signature of the
  source.
\<close>

fun boxes_overlap :: "bbox \<Rightarrow> bbox \<Rightarrow> real \<Rightarrow> bool" where
  "boxes_overlap (xa1, ya1, xa2, ya2) (xb1, yb1, xb2, yb2) iou_threshold =
     (let x_left = max xa1 xb1;
          y_top = max ya1 yb1;
          x_right = min xa2 xb2;
          y_bottom = min ya2 yb2
      in if x_right < x_left \<or> y_bottom < y_top then False
         else let inter_area = (x_right - x_left) * (y_bottom - y_top)
              in if inter_area \<le> 0 then False else True)"

text \<open>The default value of the keyword argument, used by every call in the file.\<close>

definition default_iou_threshold :: real where
  "default_iou_threshold = 1 / 10"

definition is_in_roi :: "bbox \<Rightarrow> bbox list \<Rightarrow> bool" where
  "is_in_roi bbox rois = list_ex (\<lambda>roi. boxes_overlap bbox roi default_iou_threshold) rois"

text \<open>
  The area of the intersection of two rectangles, as geometry has it: the product of the
  widths of the two overlaps of the sides, each taken as zero when the sides are
  disjoint. The claim on \<open>boxes_overlap\<close> is stated against it.
\<close>

fun spec_intersection_area :: "bbox \<Rightarrow> bbox \<Rightarrow> real" where
  "spec_intersection_area (xa1, ya1, xa2, ya2) (xb1, yb1, xb2, yb2) =
     max 0 (min xa2 xb2 - max xa1 xb1) * max 0 (min ya2 yb2 - max ya1 yb1)"

section \<open>Detection service: rule evaluation\<close>

text \<open>
  A detection is the dictionary \<^verbatim>\<open>{'class': ..., 'confidence': ..., 'bbox': ...}\<close>
  built from one box of the detector's output; a violation pairing is the dictionary
  \<^verbatim>\<open>{'hand': hb, 'pizza': pizza['bbox']}\<close>.
\<close>

record detection =
  det_class :: string
  det_confidence :: real
  det_bbox :: bbox

record pairing =
  p_hand :: bbox
  p_pizza :: bbox

text \<open>
  The inner loop \<^verbatim>\<open>for pizza in pizzas: if boxes_overlap(hb, pizza['bbox']): ...; break\<close>
  on the two mutable locals \<open>violation_count\<close> and \<open>violation_bboxes\<close>.
\<close>

fun pizza_loop :: "bbox \<Rightarrow> detection list \<Rightarrow> int \<times> pairing list \<Rightarrow> int \<times> pairing list" where
  "pizza_loop hb [] (violation_count, violation_bboxes) = (violation_count, violation_bboxes)"
| "pizza_loop hb (pizza # rest) (violation_count, violation_bboxes) =
     (if boxes_overlap hb (det_bbox pizza) default_iou_threshold
      then (violation_count + 1,
            violation_bboxes @ [\<lparr>p_hand = hb, p_pizza = det_bbox pizza\<rparr>])
      else pizza_loop hb rest (violation_count, violation_bboxes))"

text \<open>The outer loop \<^verbatim>\<open>for hand in hands\<close>.\<close>

fun hand_loop ::
  "bbox list \<Rightarrow> detection list \<Rightarrow> detection list \<Rightarrow> detection list \<Rightarrow>
   int \<times> pairing list \<Rightarrow> int \<times> pairing list" where
  "hand_loop rois scoops pizzas [] st = st"
| "hand_loop rois scoops pizzas (hand # rest) st =
     (let hb = det_bbox hand in
      hand_loop rois scoops pizzas rest
        (if is_in_roi hb rois
         then (let holding_scooper =
                     list_ex (\<lambda>s. boxes_overlap hb (det_bbox s) default_iou_threshold) scoops
               in if \<not> holding_scooper then pizza_loop hb pizzas st else st)
         else st))"

definition hands_of :: "detection list \<Rightarrow> detection list" where
  "hands_of detections = filter (\<lambda>d. det_class d = ''hand'') detections"

definition scoops_of :: "detection list \<Rightarrow> detection list" where
  "scoops_of detections = filter (\<lambda>d. det_class d = ''scooper'') detections"

definition pizzas_of :: "detection list \<Rightarrow> detection list" where
  "pizzas_of detections = filter (\<lambda>d. det_class d = ''pizza'') detections"

text \<open>
  Lines 204 to 224 of \<^verbatim>\<open>process_frame\<close>: the partition by class and the two
  loops, started at \<open>violation_count = 0\<close>, \<open>violation_bboxes = []\<close>. The result is the
  pair of the two locals after the loops.
\<close>

definition evaluate_rule :: "bbox list \<Rightarrow> detection list \<Rightarrow> int \<times> pairing list" where
  "evaluate_rule rois detections =
     hand_loop rois (scoops_of detections) (pizzas_of detections) (hands_of detections) (0, [])"

text \<open>
  The pairing list as the specification words it: one entry per hand that overlaps a
  region, overlaps no scooper and overlaps some pizza, paired with the first such pizza.
\<close>

definition spec_pairing_of_hand ::
  "bbox list \<Rightarrow> detection list \<Rightarrow> detection list \<Rightarrow> detection \<Rightarrow> pairing list" where
  "spec_pairing_of_hand rois scoops pizzas h =
     (if list_ex (\<lambda>roi. boxes_overlap (det_bbox h) roi default_iou_threshold) rois
         \<and> \<not> list_ex (\<lambda>s. boxes_overlap (det_bbox h) (det_bbox s) default_iou_threshold) scoops
      then (case find (\<lambda>p. boxes_overlap (det_bbox h) (det_bbox p) default_iou_threshold) pizzas of
              None \<Rightarrow> []
            | Some p \<Rightarrow> [\<lparr>p_hand = det_bbox h, p_pizza = det_bbox p\<rparr>])
      else [])"

definition spec_pairings :: "bbox list \<Rightarrow> detection list \<Rightarrow> pairing list" where
  "spec_pairings rois detections =
     concat (map (spec_pairing_of_hand rois (scoops_of detections) (pizzas_of detections))
                 (hands_of detections))"

section \<open>Detection service: handling one frame message\<close>

text \<open>
  \<^verbatim>\<open>ViolationDetector.process_frame(ch, method, properties, body)\<close>. The callback
  returns nothing; what it does is the sequence of calls it makes on the store, the
  result channel and the delivery, so the model returns that sequence.

  The body of the delivery either parses to a dictionary or it does not
  (\<^verbatim>\<open>json.loads\<close> raises, or the value has no \<^verbatim>\<open>get\<close>); the four keys are
  read with \<^verbatim>\<open>message.get\<close>, so each may be absent.
\<close>

record frame_message =
  fm_frame :: "string option"
  fm_video_name :: "string option"
  fm_frame_id :: "int option"
  fm_timestamp :: "real option"

datatype frame_body = Undecodable | JsonMessage frame_message

text \<open>
  \<^verbatim>\<open>base64.b64decode\<close>, \<^verbatim>\<open>np.frombuffer\<close> and \<^verbatim>\<open>cv2.imdecode\<close> together:
  one of them raises, or \<^verbatim>\<open>imdecode\<close> returns \<^verbatim>\<open>None\<close>, or there is an image.
\<close>

datatype 'img decoded = DecodeRaises | DecodeNone | Decoded 'img

record violation_row =
  vr_video_name :: "string option"
  vr_frame_id :: "int option"
  vr_timestamp :: "real option"
  vr_violation_type :: string
  vr_bounding_boxes :: "pairing list"
  vr_detected_objects :: "string list"
  vr_confidence :: "real list"

record result_message =
  rm_video_name :: "string option"
  rm_frame_id :: "int option"
  rm_timestamp :: string
  rm_detections :: "detection list"
  rm_violation_count :: int

text \<open>
  The collaborators of one call: the image decoder, the detector (\<open>None\<close> when the
  inference raises), the store (\<open>False\<close> when \<^verbatim>\<open>self.db_conn.cursor()\<close> or
  \<^verbatim>\<open>cursor.execute\<close> raises, which includes \<^verbatim>\<open>self.db_conn\<close> being \<^verbatim>\<open>None\<close>),
  the result channel (\<open>False\<close> when \<^verbatim>\<open>basic_publish\<close> raises) and the clock read by
  \<^verbatim>\<open>datetime.now().isoformat()\<close>. The calls \<^verbatim>\<open>basic_ack\<close> and \<^verbatim>\<open>basic_nack\<close>
  on the delivery are taken to return.
\<close>

record 'img collaborators =
  decode_image :: "string \<Rightarrow> 'img decoded"
  model :: "'img \<Rightarrow> detection list option"
  db_insert_ok :: "violation_row \<Rightarrow> bool"
  publish_ok :: "result_message \<Rightarrow> bool"
  now_isoformat :: string

datatype effect =
    InsertViolation violation_row
  | LogViolation
  | PublishResult result_message
  | BasicAck
  | BasicNack bool
  | LogError

text \<open>The handler \<^verbatim>\<open>except Exception\<close>: log, then \<^verbatim>\<open>basic_nack(requeue=False)\<close>.\<close>

definition on_exception :: "effect list" where
  "on_exception = [LogError, BasicNack False]"

definition publish_and_ack :: "'img collaborators \<Rightarrow> result_message \<Rightarrow> effect list" where
  "publish_and_ack env result_message =
     (if publish_ok env result_message then [PublishResult result_message, BasicAck]
      else on_exception)"

text \<open>
  The tuple handed to \<^verbatim>\<open>cursor.execute\<close> and the dictionary \<open>result_message\<close>, as
  \<^verbatim>\<open>process_frame\<close> builds them from the message, the detections and the two locals.
\<close>

definition violation_insert_row ::
  "frame_message \<Rightarrow> detection list \<Rightarrow> pairing list \<Rightarrow> violation_row" where
  "violation_insert_row message detections violation_bboxes =
     \<lparr>vr_video_name = fm_video_name message,
      vr_frame_id = fm_frame_id message,
      vr_timestamp = fm_timestamp message,
      vr_violation_type = ''hand_no_scooper'',
      vr_bounding_boxes = violation_bboxes,
      vr_detected_objects = map det_class detections,
      vr_confidence = map det_confidence detections\<rparr>"

definition build_result_message ::
  "'img collaborators \<Rightarrow> frame_message \<Rightarrow> detection list \<Rightarrow> int \<Rightarrow> result_message" where
  "build_result_message env message detections violation_count =
     \<lparr>rm_video_name = fm_video_name message,
      rm_frame_id = fm_frame_id message,
      rm_timestamp = now_isoformat env,
      rm_detections = detections,
      rm_violation_count = violation_count\<rparr>"

definition process_frame :: "'img collaborators \<Rightarrow> frame_body \<Rightarrow> effect list" where
  "process_frame env body =
     (case body of
        Undecodable \<Rightarrow> on_exception
      | JsonMessage message \<Rightarrow>
          (case fm_frame message of
             None \<Rightarrow> [BasicAck]
           | Some frame_b64 \<Rightarrow>
               (case decode_image env frame_b64 of
                  DecodeRaises \<Rightarrow> on_exception
                | DecodeNone \<Rightarrow> [BasicAck]
                | Decoded frame \<Rightarrow>
                    (case model env frame of
                       None \<Rightarrow> on_exception
                     | Some detections \<Rightarrow>
                         (let (violation_count, violation_bboxes) = evaluate_rule ROIS detections;
                              row = violation_insert_row message detections violation_bboxes;
                              result_message =
                                build_result_message env message detections violation_count
                          in if violation_count > 0
                             then (if db_insert_ok env row
                                   then [InsertViolation row, LogViolation]
                                          @ publish_and_ack env result_message
                                   else on_exception)
                             else publish_and_ack env result_message)))))"

section \<open>Startup connections\<close>

text \<open>
  The retry loops of \<^verbatim>\<open>connect_db\<close> and \<^verbatim>\<open>connect_rabbitmq\<close>. The outcome of
  the attempt made while \<open>retry_count = k\<close> is \<open>connect_ok k\<close> (\<open>False\<close>: the body of the
  \<^verbatim>\<open>try\<close> raises). A call ends in one of three ways: it returns after a successful
  attempt, it raises, or the \<^verbatim>\<open>while\<close> condition fails and it returns without a
  connection.
\<close>

datatype conn_event = ConnAttempt | ConnSleep nat | ConnLogInfo | ConnLogWarning | ConnLogError

datatype conn_result = Connected | Raised | FellThrough

text \<open>
  \<^verbatim>\<open>ViolationDetector.connect_db\<close> and \<^verbatim>\<open>ViolationDetector.connect_rabbitmq\<close>
  (detection service): the handler counts the failure and sleeps two seconds; nothing
  follows the loop.
\<close>

function detector_retry_loop :: "(nat \<Rightarrow> bool) \<Rightarrow> nat \<Rightarrow> nat \<Rightarrow> conn_event list \<times> conn_result" where
  "detector_retry_loop connect_ok max_retries retry_count =
     (if retry_count < max_retries
      then (if connect_ok retry_count then ([ConnAttempt, ConnLogInfo], Connected)
            else (case detector_retry_loop connect_ok max_retries (retry_count + 1) of
                    (events, result) \<Rightarrow> (ConnAttempt # ConnSleep 2 # events, result)))
      else ([], FellThrough))"
  by pat_completeness auto
termination
  by (relation "measure (\<lambda>(connect_ok, max_retries, retry_count). max_retries - retry_count)") auto

definition ViolationDetector_connect_db :: "(nat \<Rightarrow> bool) \<Rightarrow> conn_event list \<times> conn_result" where
  "ViolationDetector_connect_db connect_ok = detector_retry_loop connect_ok 5 0"

definition ViolationDetector_connect_rabbitmq :: "(nat \<Rightarrow> bool) \<Rightarrow> conn_event list \<times> conn_result" where
  "ViolationDetector_connect_rabbitmq connect_ok = detector_retry_loop connect_ok 5 0"

text \<open>
  \<^verbatim>\<open>StreamingManager.connect_db\<close> and \<^verbatim>\<open>StreamingManager.connect_rabbitmq\<close>
  (streaming service): the handler counts the failure, then warns and sleeps two seconds
  if attempts remain, and otherwise logs an error and re-raises.
\<close>

function streaming_retry_loop :: "(nat \<Rightarrow> bool) \<Rightarrow> nat \<Rightarrow> nat \<Rightarrow> conn_event list \<times> conn_result" where
  "streaming_retry_loop connect_ok max_retries retry_count =
     (if retry_count < max_retries
      then (if connect_ok retry_count then ([ConnAttempt, ConnLogInfo], Connected)
            else if retry_count + 1 < max_retries
            then (case streaming_retry_loop connect_ok max_retries (retry_count + 1) of
                    (events, result) \<Rightarrow>
                      (ConnAttempt # ConnLogWarning # ConnSleep 2 # events, result))
            else ([ConnAttempt, ConnLogError], Raised))
      else ([], FellThrough))"
  by pat_completeness auto
termination
  by (relation "measure (\<lambda>(connect_ok, max_retries, retry_count). max_retries - retry_count)") auto

definition StreamingManager_connect_db :: "(nat \<Rightarrow> bool) \<Rightarrow> conn_event list \<times> conn_result" where
  "StreamingManager_connect_db connect_ok = streaming_retry_loop connect_ok 5 0"

definition StreamingManager_connect_rabbitmq :: "(nat \<Rightarrow> bool) \<Rightarrow> conn_event list \<times> conn_result" where
  "StreamingManager_connect_rabbitmq connect_ok = streaming_retry_loop connect_ok 5 0"

definition attempts :: "conn_event list \<Rightarrow> nat" where
  "attempts events = length (filter (\<lambda>e. e = ConnAttempt) events)"

definition sleeps :: "conn_event list \<Rightarrow> nat list" where
  "sleeps events = concat (map (\<lambda>e. case e of ConnSleep s \<Rightarrow> [s] | _ \<Rightarrow> []) events)"

section \<open>Streaming service: aggregate state\<close>

text \<open>
  A parsed result message is a dictionary; \<^verbatim>\<open>process_detection\<close> subscripts it,
  so an absent key raises \<^verbatim>\<open>KeyError\<close>. The values have the types of the message
  contract (\<open>video_name\<close> a string, \<open>violation_count\<close> an integer).
\<close>

record result_dict =
  rd_video_name :: "string option"
  rd_violation_count :: "int option"
  rd_frame_id :: "int option"
  rd_timestamp :: "string option"
  rd_detections :: "detection list option"

datatype result_body = UndecodableResult | JsonResult result_dict

text \<open>The two caches of \<^verbatim>\<open>StreamingManager.__init__\<close>, both empty at first.\<close>

record manager =
  latest_detections :: "string \<rightharpoonup> result_dict"
  video_violations :: "string \<rightharpoonup> int"

definition new_manager :: manager where
  "new_manager = \<lparr>latest_detections = Map.empty, video_violations = Map.empty\<rparr>"

definition process_detection :: "manager \<Rightarrow> result_body \<Rightarrow> manager \<times> effect list" where
  "process_detection self body =
     (case body of
        UndecodableResult \<Rightarrow> (self, on_exception)
      | JsonResult message \<Rightarrow>
          (case rd_video_name message of
             None \<Rightarrow> (self, on_exception)
           | Some video_name \<Rightarrow>
               (let self1 = self\<lparr>latest_detections := (latest_detections self)(video_name \<mapsto> message)\<rparr>
                in case rd_violation_count message of
                     None \<Rightarrow> (self1, on_exception)
                   | Some violation_count \<Rightarrow>
                       (let self2 = (if video_violations self1 video_name = None
                                     then self1\<lparr>video_violations := (video_violations self1)(video_name \<mapsto> 0)\<rparr>
                                     else self1);
                            total = (case video_violations self2 video_name of
                                       None \<Rightarrow> 0 | Some t \<Rightarrow> t) + violation_count;
                            self3 = self2\<lparr>video_violations := (video_violations self2)(video_name \<mapsto> total)\<rparr>
                        in (self3, (if violation_count > 0 then [LogViolation] else []) @ [BasicAck])))))"

text \<open>The consumer loop: the callback runs on each delivery in turn, on the state left by the one before.\<close>

fun consume :: "manager \<Rightarrow> result_body list \<Rightarrow> manager" where
  "consume self [] = self"
| "consume self (body # rest) = consume (fst (process_detection self body)) rest"

text \<open>
  A complete result message has both keys that \<^verbatim>\<open>process_detection\<close> subscripts.
  \<open>results_of_video\<close> selects, in order, the messages of one video from a sequence, and
  \<open>violation_count_of\<close> reads the count of a message.
\<close>

definition complete_result :: "result_dict \<Rightarrow> bool" where
  "complete_result message = (rd_video_name message \<noteq> None \<and> rd_violation_count message \<noteq> None)"

definition results_of_video :: "string \<Rightarrow> result_dict list \<Rightarrow> result_dict list" where
  "results_of_video video_name messages =
     filter (\<lambda>message. rd_video_name message = Some video_name) messages"

definition violation_count_of :: "result_dict \<Rightarrow> int" where
  "violation_count_of message = (case rd_violation_count message of None \<Rightarrow> 0 | Some c \<Rightarrow> c)"

definition counter_of :: "manager \<Rightarrow> string \<Rightarrow> int" where
  "counter_of self video_name = (case video_violations self video_name of None \<Rightarrow> 0 | Some t \<Rightarrow> t)"

section \<open>Streaming service: startup\<close>

text \<open>
  \<^verbatim>\<open>StreamingManager.__init__\<close> connects to the store, then to the broker, then
  starts the consumer thread; an exception of either connection leaves the constructor.
  The module wraps the construction in \<^verbatim>\<open>try ... except Exception\<close>, which logs,
  and then goes on to define the routes and to run the HTTP application. \<open>Serving None\<close>
  is the application running with the global \<open>manager\<close> unbound.
\<close>

datatype startup_event = Conn conn_event | ConsumerThreadStarted | ManagerInitialized | ManagerFailed | AppRun

datatype process_state = ProcessAborted | Serving "manager option"

definition StreamingManager_init ::
  "(nat \<Rightarrow> bool) \<Rightarrow> (nat \<Rightarrow> bool) \<Rightarrow> startup_event list \<times> manager option" where
  "StreamingManager_init db_ok mq_ok =
     (case StreamingManager_connect_db db_ok of
        (db_events, Raised) \<Rightarrow> (map Conn db_events, None)
      | (db_events, _) \<Rightarrow>
          (case StreamingManager_connect_rabbitmq mq_ok of
             (mq_events, Raised) \<Rightarrow> (map Conn db_events @ map Conn mq_events, None)
           | (mq_events, _) \<Rightarrow>
               (map Conn db_events @ map Conn mq_events @ [ConsumerThreadStarted],
                Some new_manager)))"

definition streaming_main ::
  "(nat \<Rightarrow> bool) \<Rightarrow> (nat \<Rightarrow> bool) \<Rightarrow> startup_event list \<times> process_state" where
  "streaming_main db_ok mq_ok =
     (case StreamingManager_init db_ok mq_ok of
        (events, None) \<Rightarrow> (events @ [ManagerFailed, AppRun], Serving None)
      | (events, Some m) \<Rightarrow> (events @ [ManagerInitialized, AppRun], Serving (Some m)))"

section \<open>Streaming service: query endpoints\<close>

text \<open>
  The store as the endpoints see it: each query either raises (\<open>Inl\<close> of the exception's
  text) or returns what \<^verbatim>\<open>fetchone\<close> (an optional row) or \<^verbatim>\<open>fetchall\<close> (a list
  of rows) gives. Rows are kept abstract, except for the columns an endpoint reads.
\<close>

record 'row store =
  count_by_video :: "string \<Rightarrow> string + int option"
  list_by_video :: "string \<Rightarrow> nat \<Rightarrow> string + 'row list"
  counts_per_video :: "string + 'row list"
  first_last_by_video :: "string \<Rightarrow> string + (string option \<times> string option) option"
  row_by_id :: "int \<Rightarrow> string + 'row option"
  total_violations :: "string + int option"
  videos_with_violations :: "string + int option"
  violation_types :: "string + 'row list"

datatype 'row response_body =
    ErrorBody string
  | ViolationsBody string int "'row list"
  | VideosBody "'row list" nat
  | DetectionBody result_dict
  | SummaryBody string int "string option" "string option"
  | RowBody 'row
  | HealthBody
  | StatisticsBody int int "'row list"

type_synonym 'row response = "'row response_body \<times> nat"

text \<open>
  The text of the exceptions that Python itself raises in the handlers: the global
  \<open>manager\<close> is unbound, or \<^verbatim>\<open>fetchone()\<close> gave \<^verbatim>\<open>None\<close> and is subscripted.
\<close>

definition name_error :: string where
  "name_error = ''name '' @ [CHR 0x27] @ ''manager'' @ [CHR 0x27] @ '' is not defined''"

definition none_subscript_error :: string where
  "none_subscript_error = [CHR 0x27] @ ''NoneType'' @ [CHR 0x27] @ '' object is not subscriptable''"

definition get_violation_count_from_db :: "'row store \<Rightarrow> string \<Rightarrow> int" where
  "get_violation_count_from_db db video_name =
     (case count_by_video db video_name of
        Inl e \<Rightarrow> 0
      | Inr None \<Rightarrow> 0
      | Inr (Some n) \<Rightarrow> n)"

definition get_violations_from_db :: "'row store \<Rightarrow> string \<Rightarrow> nat \<Rightarrow> 'row list" where
  "get_violations_from_db db video_name limit =
     (case list_by_video db video_name limit of
        Inl e \<Rightarrow> []
      | Inr violations \<Rightarrow> violations)"

definition get_violations :: "manager option \<Rightarrow> 'row store \<Rightarrow> string \<Rightarrow> 'row response" where
  "get_violations mgr db video_name =
     (case mgr of
        None \<Rightarrow> (ErrorBody name_error, 500)
      | Some m \<Rightarrow>
          (let count = get_violation_count_from_db db video_name;
               violations = get_violations_from_db db video_name 100
           in (ViolationsBody video_name count violations, 200)))"

definition get_all_violations :: "manager option \<Rightarrow> 'row store \<Rightarrow> 'row response" where
  "get_all_violations mgr db =
     (case mgr of
        None \<Rightarrow> (ErrorBody name_error, 500)
      | Some m \<Rightarrow>
          (case counts_per_video db of
             Inl e \<Rightarrow> (ErrorBody e, 500)
           | Inr results \<Rightarrow> (VideosBody results (length results), 200)))"

definition get_latest_detection :: "manager option \<Rightarrow> string \<Rightarrow> 'row response" where
  "get_latest_detection mgr video_name =
     (case mgr of
        None \<Rightarrow> (ErrorBody name_error, 500)
      | Some m \<Rightarrow>
          (case latest_detections m video_name of
             Some message \<Rightarrow> (DetectionBody message, 200)
           | None \<Rightarrow> (ErrorBody ''No detections found'', 404)))"

definition get_video_summary :: "manager option \<Rightarrow> 'row store \<Rightarrow> string \<Rightarrow> 'row response" where
  "get_video_summary mgr db video_name =
     (case mgr of
        None \<Rightarrow> (ErrorBody name_error, 500)
      | Some m \<Rightarrow>
          (let violation_count = get_violation_count_from_db db video_name
           in case first_last_by_video db video_name of
                Inl e \<Rightarrow> (ErrorBody e, 500)
              | Inr None \<Rightarrow> (SummaryBody video_name violation_count None None, 200)
              | Inr (Some (first_violation, last_violation)) \<Rightarrow>
                  (SummaryBody video_name violation_count first_violation last_violation, 200)))"

definition get_violation_details :: "manager option \<Rightarrow> 'row store \<Rightarrow> int \<Rightarrow> 'row response" where
  "get_violation_details mgr db violation_id =
     (case mgr of
        None \<Rightarrow> (ErrorBody name_error, 500)
      | Some m \<Rightarrow>
          (case row_by_id db violation_id of
             Inl e \<Rightarrow> (ErrorBody e, 500)
           | Inr None \<Rightarrow> (ErrorBody ''Violation not found'', 404)
           | Inr (Some violation) \<Rightarrow> (RowBody violation, 200)))"

definition health_check :: "'row response" where
  "health_check = (HealthBody, 200)"

definition get_statistics :: "manager option \<Rightarrow> 'row store \<Rightarrow> 'row response" where
  "get_statistics mgr db =
     (case mgr of
        None \<Rightarrow> (ErrorBody name_error, 500)
      | Some m \<Rightarrow>
          (case total_violations db of
             Inl e \<Rightarrow> (ErrorBody e, 500)
           | Inr None \<Rightarrow> (ErrorBody none_subscript_error, 500)
           | Inr (Some n_total) \<Rightarrow>
               (case videos_with_violations db of
                  Inl e \<Rightarrow> (ErrorBody e, 500)
                | Inr None \<Rightarrow> (ErrorBody none_subscript_error, 500)
                | Inr (Some videos) \<Rightarrow>
                    (case violation_types db of
                       Inl e \<Rightarrow> (ErrorBody e, 500)
                     | Inr types \<Rightarrow> (StatisticsBody n_total videos types, 200)))))"

section \<open>Frame reader\<close>

text \<open>
  \<^verbatim>\<open>FrameReader.read_video(video_path, max_fps=5)\<close>. The capture either fails to
  open or has a native rate \<open>fps\<close> (a float, read as a real number) and the frames that
  \<^verbatim>\<open>cap.read()\<close> hands out until it reports the end. \<^verbatim>\<open>int(x)\<close> on a float
  truncates towards zero.
\<close>

datatype 'f capture = NotOpened | Opened real "'f list"

definition py_int :: "real \<Rightarrow> int" where
  "py_int x = (if 0 \<le> x then \<lfloor>x\<rfloor> else \<lceil>x\<rceil>)"

record 'f published_frame =
  pf_frame_id :: int
  pf_video_name :: string
  pf_timestamp :: real
  pf_frame :: 'f

text \<open>
  \<^verbatim>\<open>publish_frame\<close> catches every exception of the encoding, the temporary file and
  \<^verbatim>\<open>basic_publish\<close>, logs it and returns; \<open>send_ok i\<close> says whether the call for
  frame \<open>i\<close> gets through. \<open>pos_msec i\<close> is \<^verbatim>\<open>cap.get(cv2.CAP_PROP_POS_MSEC)\<close> after
  frame \<open>i\<close> was read.
\<close>

datatype 'f reader_event = Published "'f published_frame" | PublishFailed int

datatype reader_error = ZeroDivisionError

definition publish_frame ::
  "(int \<Rightarrow> bool) \<Rightarrow> 'f \<Rightarrow> int \<Rightarrow> string \<Rightarrow> real \<Rightarrow> 'f reader_event" where
  "publish_frame send_ok frame frame_id video_name timestamp =
     (if send_ok frame_id
      then Published \<lparr>pf_frame_id = frame_id, pf_video_name = video_name,
                       pf_timestamp = timestamp, pf_frame = frame\<rparr>
      else PublishFailed frame_id)"

text \<open>The \<^verbatim>\<open>while True\<close> loop: it ends when \<^verbatim>\<open>cap.read()\<close> has no frame left.\<close>

fun read_loop ::
  "(int \<Rightarrow> bool) \<Rightarrow> (int \<Rightarrow> real) \<Rightarrow> string \<Rightarrow> int \<Rightarrow> int \<Rightarrow> 'f list \<Rightarrow> 'f reader_event list" where
  "read_loop send_ok pos_msec video_name frame_skip frame_id [] = []"
| "read_loop send_ok pos_msec video_name frame_skip frame_id (frame # rest) =
     (let frame_id = frame_id + 1 in
      (if frame_id mod frame_skip = 0
       then [publish_frame send_ok frame frame_id video_name (pos_msec frame_id)]
       else [])
      @ read_loop send_ok pos_msec video_name frame_skip frame_id rest)"

definition frame_skip_of :: "real \<Rightarrow> int \<Rightarrow> int" where
  "frame_skip_of fps max_fps = max 1 (py_int (fps / of_int max_fps))"

definition read_video ::
  "(int \<Rightarrow> bool) \<Rightarrow> (int \<Rightarrow> real) \<Rightarrow> 'f capture \<Rightarrow> string \<Rightarrow> int \<Rightarrow>
   reader_error + 'f reader_event list" where
  "read_video send_ok pos_msec cap video_name max_fps =
     (case cap of
        NotOpened \<Rightarrow> Inr []
      | Opened fps frames \<Rightarrow>
          (if max_fps = 0 then Inl ZeroDivisionError
           else Inr (read_loop send_ok pos_msec video_name (frame_skip_of fps max_fps) 0 frames)))"

text \<open>The frame index of each call of \<^verbatim>\<open>publish_frame\<close>, and of each published message.\<close>

fun event_id :: "'f reader_event \<Rightarrow> int" where
  "event_id (Published m) = pf_frame_id m"
| "event_id (PublishFailed i) = i"

fun is_published :: "'f reader_event \<Rightarrow> bool" where
  "is_published (Published m) = True"
| "is_published (PublishFailed i) = False"

text \<open>The messages that got through, in the order of their publication.\<close>

fun published_frames :: "'f reader_event list \<Rightarrow> 'f published_frame list" where
  "published_frames [] = []"
| "published_frames (Published m # events) = m # published_frames events"
| "published_frames (PublishFailed i # events) = published_frames events"

section \<open>Example inputs\<close>

text \<open>The detections of the concrete scenarios of the specification.\<close>

definition hand0 :: detection where
  "hand0 = \<lparr>det_class = ''hand'', det_confidence = 9 / 10, det_bbox = (50, 34, 56, 37)\<rparr>"

definition pizza0 :: detection where
  "pizza0 = \<lparr>det_class = ''pizza'', det_confidence = 8 / 10, det_bbox = (49, 33, 57, 38)\<rparr>"

definition scoop0 :: detection where
  "scoop0 = \<lparr>det_class = ''scooper'', det_confidence = 7 / 10, det_bbox = (50, 34, 54, 36)\<rparr>"

text \<open>
  A frame message whose payload decodes, a detector that finds the hand and the pizza of
  the first scenario, and a store whose insert raises (\<open>env_store_down\<close>) or succeeds
  (\<open>env_store_up\<close>).
\<close>

definition message0 :: frame_message where
  "message0 = \<lparr>fm_frame = Some ''AAAA'', fm_video_name = Some ''video1'',
                fm_frame_id = Some 6, fm_timestamp = Some 200\<rparr>"

definition message_without_frame :: frame_message where
  "message_without_frame = \<lparr>fm_frame = None, fm_video_name = Some ''video1'',
                             fm_frame_id = Some 6, fm_timestamp = Some 200\<rparr>"

definition frame_body0 :: frame_body where
  "frame_body0 = JsonMessage message0"

definition result0 :: result_message where
  "result0 = \<lparr>rm_video_name = Some ''video1'', rm_frame_id = Some 6,
               rm_timestamp = ''2025-01-01T00:00:00'', rm_detections = [hand0, pizza0],
               rm_violation_count = 1\<rparr>"

definition env_store_down :: "string collaborators" where
  "env_store_down = \<lparr>decode_image = (\<lambda>b. Decoded b), model = (\<lambda>img. Some [hand0, pizza0]),
                      db_insert_ok = (\<lambda>row. False), publish_ok = (\<lambda>r. True),
                      now_isoformat = ''2025-01-01T00:00:00''\<rparr>"

definition env_store_up :: "string collaborators" where
  "env_store_up = \<lparr>decode_image = (\<lambda>b. Decoded b), model = (\<lambda>img. Some [hand0, pizza0]),
                    db_insert_ok = (\<lambda>row. True), publish_ok = (\<lambda>r. True),
                    now_isoformat = ''2025-01-01T00:00:00''\<rparr>"

definition env_no_image :: "string collaborators" where
  "env_no_image = \<lparr>decode_image = (\<lambda>b. DecodeNone), model = (\<lambda>img. Some [hand0, pizza0]),
                    db_insert_ok = (\<lambda>row. True), publish_ok = (\<lambda>r. True),
                    now_isoformat = ''2025-01-01T00:00:00''\<rparr>"

definition env_decode_raises :: "string collaborators" where
  "env_decode_raises = \<lparr>decode_image = (\<lambda>b. DecodeRaises), model = (\<lambda>img. Some [hand0, pizza0]),
                         db_insert_ok = (\<lambda>row. True), publish_ok = (\<lambda>r. True),
                         now_isoformat = ''2025-01-01T00:00:00''\<rparr>"

text \<open>A store on which every query raises.\<close>

definition store_down :: "nat store" where
  "store_down = \<lparr>count_by_video = (\<lambda>v. Inl ''connection already closed''),
                  list_by_video = (\<lambda>v limit. Inl ''connection already closed''),
                  counts_per_video = Inl ''connection already closed'',
                  first_last_by_video = (\<lambda>v. Inl ''connection already closed''),
                  row_by_id = (\<lambda>i. Inl ''connection already closed''),
                  total_violations = Inl ''connection already closed'',
                  videos_with_violations = Inl ''connection already closed'',
                  violation_types = Inl ''connection already closed''\<rparr>"

text \<open>Three result messages, two of them of the same video.\<close>

definition result_a1 :: result_dict where
  "result_a1 = \<lparr>rd_video_name = Some ''a'', rd_violation_count = Some 2, rd_frame_id = Some 6,
                 rd_timestamp = Some ''t1'', rd_detections = Some []\<rparr>"

definition result_b1 :: result_dict where
  "result_b1 = \<lparr>rd_video_name = Some ''b'', rd_violation_count = Some 5, rd_frame_id = Some 6,
                 rd_timestamp = Some ''t2'', rd_detections = Some []\<rparr>"

definition result_a2 :: result_dict where
  "result_a2 = \<lparr>rd_video_name = Some ''a'', rd_violation_count = Some 1, rd_frame_id = Some 12,
                 rd_timestamp = Some ''t3'', rd_detections = Some []\<rparr>"

text \<open>A source of twelve frames.\<close>

definition frames12 :: "nat list" where
  "frames12 = [101, 102, 103, 104, 105, 106, 107, 108, 109, 110, 111, 112]"

text \<open>A server that refuses every connection attempt, and one that accepts the first.\<close>

definition never_connects :: "nat \<Rightarrow> bool" where
  "never_connects k = False"

definition always_connects :: "nat \<Rightarrow> bool" where
  "always_connects k = True"

lemmas example_defs =
  hand0_def pizza0_def scoop0_def ROIS_def is_in_roi_def default_iou_threshold_def
  hands_of_def scoops_of_def pizzas_of_def

section \<open>Overlap predicate\<close>

lemma boxes_overlap_iff:
  "boxes_overlap (xa1, ya1, xa2, ya2) (xb1, yb1, xb2, yb2) t =
     (max xa1 xb1 < min xa2 xb2 \<and> max ya1 yb1 < min ya2 yb2)"
proof -
  define l r u b where "l = max xa1 xb1" and "r = min xa2 xb2"
    and "u = max ya1 yb1" and "b = min ya2 yb2"
  have unfolded: "boxes_overlap (xa1, ya1, xa2, ya2) (xb1, yb1, xb2, yb2) t =
      (\<not> (r < l \<or> b < u) \<and> \<not> (r - l) * (b - u) \<le> 0)"
    by (simp add: l_def r_def u_def b_def Let_def)
  have "(\<not> (r < l \<or> b < u) \<and> \<not> (r - l) * (b - u) \<le> 0) = (l < r \<and> u < b)"
  proof (cases "l \<le> r \<and> u \<le> b")
    case True
    then have "0 \<le> r - l" and "0 \<le> b - u" by simp_all
    then have "0 < (r - l) * (b - u) \<longleftrightarrow> 0 < r - l \<and> 0 < b - u"
      by (auto simp: zero_less_mult_iff)
    with True show ?thesis by (auto simp: not_le)
  next
    case False
    then show ?thesis by auto
  qed
  with unfolded show ?thesis by (simp add: l_def r_def u_def b_def)
qed

lemma spec_intersection_area_pos:
  "0 < spec_intersection_area (xa1, ya1, xa2, ya2) (xb1, yb1, xb2, yb2) =
     (max xa1 xb1 < min xa2 xb2 \<and> max ya1 yb1 < min ya2 yb2)"
proof -
  define w h where "w = min xa2 xb2 - max xa1 xb1" and "h = min ya2 yb2 - max ya1 yb1"
  have "0 < max 0 w * max 0 h \<longleftrightarrow> 0 < w \<and> 0 < h"
    by (auto simp: zero_less_mult_iff max_def)
  then show ?thesis
    by (simp add: w_def h_def)
qed

text \<open>
  Claim C3. For all rectangles \<open>A = (xa1, ya1, xa2, ya2)\<close> and \<open>B\<close>, \<open>boxes_overlap\<close> is
  true exactly when the intersection's left edge is strictly left of its right edge and
  its top strictly above its bottom, which is exactly when the intersection has strictly
  positive area. Two rectangles that meet only along a vertical or horizontal line
  (the right side of one is the left side of the other, or the bottom of one the top of
  the other, which covers a shared edge and a shared corner) do not overlap, whatever
  their other coordinates are.
\<close>

theorem boxes_overlap_strictly_positive_area:
  "boxes_overlap (xa1, ya1, xa2, ya2) (xb1, yb1, xb2, yb2) t =
     (max xa1 xb1 < min xa2 xb2 \<and> max ya1 yb1 < min ya2 yb2)
   \<and> boxes_overlap (xa1, ya1, xa2, ya2) (xb1, yb1, xb2, yb2) t =
     (0 < spec_intersection_area (xa1, ya1, xa2, ya2) (xb1, yb1, xb2, yb2))
   \<and> \<not> boxes_overlap (xa1, ya1, e, ya2) (e, yb1, xb2, yb2) t
   \<and> \<not> boxes_overlap (e, yb1, xb2, yb2) (xa1, ya1, e, ya2) t
   \<and> \<not> boxes_overlap (xa1, ya1, xa2, e) (xb1, e, xb2, yb2) t
   \<and> \<not> boxes_overlap (xb1, e, xb2, yb2) (xa1, ya1, xa2, e) t"
proof -
  have a: "boxes_overlap (xa1, ya1, xa2, ya2) (xb1, yb1, xb2, yb2) t =
     (0 < spec_intersection_area (xa1, ya1, xa2, ya2) (xb1, yb1, xb2, yb2))"
    by (simp only: boxes_overlap_iff spec_intersection_area_pos)
  have b: "\<not> boxes_overlap (xa1, ya1, e, ya2) (e, yb1, xb2, yb2) t"
    "\<not> boxes_overlap (e, yb1, xb2, yb2) (xa1, ya1, e, ya2) t"
    "\<not> boxes_overlap (xa1, ya1, xa2, e) (xb1, e, xb2, yb2) t"
    "\<not> boxes_overlap (xb1, e, xb2, yb2) (xa1, ya1, xa2, e) t"
    by (simp_all only: boxes_overlap_iff) (auto simp: not_less)
  show ?thesis using a b boxes_overlap_iff by blast
qed

text \<open>
  Claim C9. For all rectangles \<open>A\<close> and \<open>B\<close> and all thresholds \<open>t1\<close> and \<open>t2\<close>,
  \<open>boxes_overlap A B t1\<close> equals \<open>boxes_overlap A B t2\<close>: the threshold argument has
  no effect on the result.
\<close>

theorem boxes_overlap_threshold_no_effect:
  "boxes_overlap boxA boxB t1 = boxes_overlap boxA boxB t2"
  by (cases boxA; cases boxB) (simp only: boxes_overlap.simps)

section \<open>Rule evaluation\<close>

lemma pizza_loop_find:
  "pizza_loop hb pizzas (c, bs) =
     (case find (\<lambda>p. boxes_overlap hb (det_bbox p) default_iou_threshold) pizzas of
        None \<Rightarrow> (c, bs)
      | Some p \<Rightarrow> (c + 1, bs @ [\<lparr>p_hand = hb, p_pizza = det_bbox p\<rparr>]))"
  by (induction pizzas) simp_all

lemma spec_pairing_of_hand_length: "length (spec_pairing_of_hand rois scoops pizzas h) \<le> 1"
  by (simp add: spec_pairing_of_hand_def split: option.split)

lemma hand_step:
  "(if is_in_roi (det_bbox h) rois
    then (if \<not> list_ex (\<lambda>s. boxes_overlap (det_bbox h) (det_bbox s) default_iou_threshold) scoops
          then pizza_loop (det_bbox h) pizzas (c, bs) else (c, bs))
    else (c, bs)) =
   (c + int (length (spec_pairing_of_hand rois scoops pizzas h)),
    bs @ spec_pairing_of_hand rois scoops pizzas h)"
  by (simp add: spec_pairing_of_hand_def is_in_roi_def pizza_loop_find split: option.split)

lemma hand_loop_spec:
  "hand_loop rois scoops pizzas hands (c, bs) =
     (c + int (length (concat (map (spec_pairing_of_hand rois scoops pizzas) hands))),
      bs @ concat (map (spec_pairing_of_hand rois scoops pizzas) hands))"
proof (induction hands arbitrary: c bs)
  case Nil
  then show ?case by simp
next
  case (Cons h hands)
  show ?case
    by (simp only: hand_loop.simps Let_def hand_step Cons.IH) simp
qed

lemma evaluate_rule_spec:
  "evaluate_rule rois detections =
     (int (length (spec_pairings rois detections)), spec_pairings rois detections)"
  by (simp add: evaluate_rule_def spec_pairings_def hand_loop_spec)

lemma length_concat_le:
  "(\<And>x. length (f x) \<le> 1) \<Longrightarrow> length (concat (map f xs)) \<le> length xs"
proof (induction xs)
  case Nil
  then show ?case by simp
next
  case (Cons x xs)
  have "length (f x) \<le> 1" by (rule Cons.prems)
  moreover have "length (concat (map f xs)) \<le> length xs" using Cons by blast
  ultimately show ?case by simp
qed

lemma spec_pairings_le_hands:
  "length (spec_pairings rois detections) \<le> length (hands_of detections)"
  unfolding spec_pairings_def by (rule length_concat_le) (rule spec_pairing_of_hand_length)

lemma spec_pairings_no_pizza:
  "pizzas_of detections = [] \<Longrightarrow> spec_pairings rois detections = []"
proof -
  assume "pizzas_of detections = []"
  then have "spec_pairing_of_hand rois (scoops_of detections) (pizzas_of detections) h = []" for h
    by (simp add: spec_pairing_of_hand_def)
  then show ?thesis by (simp add: spec_pairings_def)
qed

lemma spec_pairings_no_hand:
  "hands_of detections = [] \<Longrightarrow> spec_pairings rois detections = []"
  by (simp add: spec_pairings_def)

text \<open>
  Claim C2. For every detection list (and every list of regions, the configured one
  included), the pairing list left by the two loops is the list the specification
  describes: going through the hand detections in list order, a hand that overlaps some
  region and no scooper contributes the pair of its box and the box of the first pizza,
  in list order, that it overlaps; a hand that overlaps no region, or overlaps a
  scooper, or overlaps no pizza contributes nothing. Each hand contributes at most one
  pairing, \<open>violation_count\<close> is the number of pairings, it is at most the number of
  hands, and it is 0 with an empty pairing list when there is no hand or no pizza.
\<close>

theorem evaluate_rule_pairings:
  "snd (evaluate_rule rois detections) = spec_pairings rois detections
   \<and> fst (evaluate_rule rois detections) = int (length (spec_pairings rois detections))
   \<and> length (spec_pairings rois detections) \<le> length (hands_of detections)
   \<and> length (spec_pairing_of_hand rois (scoops_of detections) (pizzas_of detections) h) \<le> 1
   \<and> (hands_of detections = [] \<or> pizzas_of detections = [] \<longrightarrow>
        evaluate_rule rois detections = (0, []))"
proof -
  have "hands_of detections = [] \<or> pizzas_of detections = [] \<longrightarrow>
        evaluate_rule rois detections = (0, [])"
    using spec_pairings_no_hand [of detections rois] spec_pairings_no_pizza [of detections rois]
    by (auto simp: evaluate_rule_spec)
  then show ?thesis
    using spec_pairings_le_hands [of rois detections]
      spec_pairing_of_hand_length [of rois "scoops_of detections" "pizzas_of detections" h]
    by (simp only: evaluate_rule_spec fst_conv snd_conv simp_thms)
qed

theorem evaluate_rule_pairings_witness:
  "snd (evaluate_rule ROIS [hand0, pizza0]) = [\<lparr>p_hand = (50, 34, 56, 37), p_pizza = (49, 33, 57, 38)\<rparr>]
   \<and> fst (evaluate_rule ROIS [hand0, pizza0]) = 1
   \<and> snd (evaluate_rule ROIS [hand0, pizza0, scoop0]) = []
   \<and> pizzas_of [hand0] = []
   \<and> evaluate_rule ROIS [hand0] = (0, [])"
  using evaluate_rule_pairings [of ROIS "[hand0, pizza0]" hand0]
    evaluate_rule_pairings [of ROIS "[hand0, pizza0, scoop0]" hand0]
    evaluate_rule_pairings [of ROIS "[hand0]" hand0]
  by (simp add: spec_pairings_def spec_pairing_of_hand_def example_defs)

section \<open>Handling one frame message\<close>

lemma process_frame_detected:
  assumes "fm_frame message = Some frame_b64"
    and "decode_image env frame_b64 = Decoded frame"
    and "model env frame = Some detections"
  shows "process_frame env (JsonMessage message) =
     (if spec_pairings ROIS detections \<noteq> []
      then (if db_insert_ok env (violation_insert_row message detections (spec_pairings ROIS detections))
            then [InsertViolation (violation_insert_row message detections (spec_pairings ROIS detections)),
                  LogViolation]
                 @ publish_and_ack env (build_result_message env message detections
                      (int (length (spec_pairings ROIS detections))))
            else on_exception)
      else publish_and_ack env (build_result_message env message detections
                      (int (length (spec_pairings ROIS detections)))))"
  using assms by (simp add: process_frame_def evaluate_rule_spec)

lemma publish_and_ack_cases:
  "publish_and_ack env rm = [PublishResult rm, BasicAck] \<or> publish_and_ack env rm = on_exception"
  by (simp add: publish_and_ack_def)

lemma published_inversion:
  assumes "PublishResult r \<in> set (process_frame env body)"
  obtains message frame_b64 frame detections where
    "body = JsonMessage message" "fm_frame message = Some frame_b64"
    "decode_image env frame_b64 = Decoded frame" "model env frame = Some detections"
  using assms
  by (auto simp: process_frame_def on_exception_def
      split: frame_body.splits option.splits decoded.splits)

text \<open>
  Claim C10. Whenever \<open>process_frame\<close> publishes a result \<open>r\<close> for a frame, the
  \<open>violation_count\<close> of \<open>r\<close> is the length of the pairing list built for the frame's
  detections, it is at most the number of hand detections, a row is inserted into the
  store if and only if that count is at least 1, and the row inserted carries that same
  pairing list.
\<close>

theorem published_count_matches_pairings:
  assumes "PublishResult r \<in> set (process_frame env body)"
  shows "rm_violation_count r = int (length (snd (evaluate_rule ROIS (rm_detections r))))
    \<and> rm_violation_count r \<le> int (length (hands_of (rm_detections r)))
    \<and> ((\<exists>row. InsertViolation row \<in> set (process_frame env body)) \<longleftrightarrow> 1 \<le> rm_violation_count r)
    \<and> (\<forall>row. InsertViolation row \<in> set (process_frame env body) \<longrightarrow>
          vr_bounding_boxes row = snd (evaluate_rule ROIS (rm_detections r)))"
proof -
  from assms obtain message frame_b64 frame detections where
    b: "body = JsonMessage message" and f: "fm_frame message = Some frame_b64"
    and d: "decode_image env frame_b64 = Decoded frame" and m: "model env frame = Some detections"
    by (rule published_inversion)
  define ps where "ps = spec_pairings ROIS detections"
  define rm where "rm = build_result_message env message detections (int (length ps))"
  define row where "row = violation_insert_row message detections ps"
  have pf: "process_frame env body =
     (if ps \<noteq> []
      then (if db_insert_ok env row then [InsertViolation row, LogViolation] @ publish_and_ack env rm
            else on_exception)
      else publish_and_ack env rm)"
    unfolding b ps_def rm_def row_def by (rule process_frame_detected [OF f d m])
  have pub: "publish_and_ack env rm = [PublishResult rm, BasicAck]"
    using assms publish_and_ack_cases [of env rm]
    by (auto simp: pf on_exception_def split: if_splits)
  have r: "r = rm"
    using assms by (auto simp: pf pub on_exception_def split: if_splits)
  have dets: "rm_detections r = detections" and cnt: "rm_violation_count r = int (length ps)"
    by (simp_all add: r rm_def build_result_message_def)
  have trace: "process_frame env body =
     (if ps \<noteq> [] then [InsertViolation row, LogViolation, PublishResult rm, BasicAck]
      else [PublishResult rm, BasicAck])"
    using assms by (auto simp: pf pub on_exception_def split: if_splits)
  have le: "length ps \<le> length (hands_of detections)"
    unfolding ps_def by (rule spec_pairings_le_hands)
  have ins: "(\<exists>row'. InsertViolation row' \<in> set (process_frame env body)) \<longleftrightarrow> ps \<noteq> []"
    by (auto simp: trace)
  have boxes: "\<forall>row'. InsertViolation row' \<in> set (process_frame env body) \<longrightarrow>
          vr_bounding_boxes row' = ps"
    by (auto simp: trace row_def violation_insert_row_def)
  have one: "1 \<le> int (length ps) \<longleftrightarrow> ps \<noteq> []"
    by (cases ps) simp_all
  show ?thesis
    using le ins boxes one by (simp add: dets cnt evaluate_rule_spec ps_def)
qed

theorem published_count_matches_pairings_witness:
  "PublishResult result0 \<in> set (process_frame env_store_up frame_body0)
   \<and> rm_violation_count result0 = int (length (snd (evaluate_rule ROIS (rm_detections result0))))
   \<and> rm_violation_count result0 \<le> int (length (hands_of (rm_detections result0)))
   \<and> (\<exists>row. InsertViolation row \<in> set (process_frame env_store_up frame_body0))"
proof -
  have h: "PublishResult result0 \<in> set (process_frame env_store_up frame_body0)"
    by (simp add: process_frame_def frame_body0_def message0_def env_store_up_def result0_def
        evaluate_rule_def publish_and_ack_def violation_insert_row_def build_result_message_def
        example_defs)
  have "rm_violation_count result0 = 1"
    by (simp add: result0_def)
  with published_count_matches_pairings [OF h] h show ?thesis
    by simp
qed

text \<open>
  Claim C1, as amended. When the frame's evaluation produced at least one pairing and
  the insert into the store raises, the exception reaches the handler of
  \<open>process_frame\<close>: the error is logged and the message is negatively acknowledged
  without requeue. No result is published for the frame and the message is not
  acknowledged.
\<close>

theorem insert_failure_nacks_without_publish:
  assumes "fm_frame message = Some frame_b64"
    and "decode_image env frame_b64 = Decoded frame"
    and "model env frame = Some detections"
    and "0 < fst (evaluate_rule ROIS detections)"
    and "\<not> db_insert_ok env
           (violation_insert_row message detections (snd (evaluate_rule ROIS detections)))"
  shows "process_frame env (JsonMessage message) = [LogError, BasicNack False]
    \<and> (\<forall>r. PublishResult r \<notin> set (process_frame env (JsonMessage message)))
    \<and> BasicAck \<notin> set (process_frame env (JsonMessage message))"
proof -
  from assms(4) have "spec_pairings ROIS detections \<noteq> []"
    by (auto simp: evaluate_rule_spec)
  with assms(5) have "process_frame env (JsonMessage message) = [LogError, BasicNack False]"
    by (simp add: process_frame_detected [OF assms(1-3)] evaluate_rule_spec on_exception_def)
  then show ?thesis by simp
qed

theorem insert_failure_nacks_without_publish_witness:
  "fm_frame message0 = Some ''AAAA''
   \<and> decode_image env_store_down ''AAAA'' = Decoded ''AAAA''
   \<and> model env_store_down ''AAAA'' = Some [hand0, pizza0]
   \<and> fst (evaluate_rule ROIS [hand0, pizza0]) = 1
   \<and> process_frame env_store_down (JsonMessage message0) = [LogError, BasicNack False]"
proof -
  have a: "fm_frame message0 = Some ''AAAA''" by (simp add: message0_def)
  have b: "decode_image env_store_down ''AAAA'' = Decoded ''AAAA''" by (simp add: env_store_down_def)
  have c: "model env_store_down ''AAAA'' = Some [hand0, pizza0]" by (simp add: env_store_down_def)
  have d: "fst (evaluate_rule ROIS [hand0, pizza0]) = 1"
    by (simp add: evaluate_rule_def example_defs)
  then have d': "0 < fst (evaluate_rule ROIS [hand0, pizza0])" by simp
  have e: "\<not> db_insert_ok env_store_down
      (violation_insert_row message0 [hand0, pizza0] (snd (evaluate_rule ROIS [hand0, pizza0])))"
    by (simp add: env_store_down_def)
  from insert_failure_nacks_without_publish [OF a b c d' e] a b c d show ?thesis by simp
qed

text \<open>
  The claim as stated fails: on a frame with one pairing whose insert raises, nothing is
  published and the message is not acknowledged.
\<close>

theorem insert_failure_counterexample:
  "fst (evaluate_rule ROIS [hand0, pizza0]) = 1
   \<and> \<not> db_insert_ok env_store_down
         (violation_insert_row message0 [hand0, pizza0] (snd (evaluate_rule ROIS [hand0, pizza0])))
   \<and> process_frame env_store_down frame_body0 = [LogError, BasicNack False]
   \<and> PublishResult result0 \<notin> set (process_frame env_store_down frame_body0)
   \<and> BasicAck \<notin> set (process_frame env_store_down frame_body0)"
  by (simp add: process_frame_def frame_body0_def message0_def env_store_down_def
      evaluate_rule_def on_exception_def example_defs)

text \<open>
  Claim C6, as amended. A message without a frame field, and a frame payload for which
  the image decoder returns no image, are acknowledged and dropped: the acknowledgement
  is the only effect. A body that does not parse to a message, and a payload whose
  decoding raises, reach the handler: they are logged and negatively acknowledged
  without requeue. In all four cases nothing is stored or published.
\<close>

theorem malformed_input_exits:
  "process_frame env Undecodable = [LogError, BasicNack False]
   \<and> (fm_frame message = None \<longrightarrow> process_frame env (JsonMessage message) = [BasicAck])
   \<and> (fm_frame message = Some frame_b64 \<and> decode_image env frame_b64 = DecodeNone \<longrightarrow>
        process_frame env (JsonMessage message) = [BasicAck])
   \<and> (fm_frame message = Some frame_b64 \<and> decode_image env frame_b64 = DecodeRaises \<longrightarrow>
        process_frame env (JsonMessage message) = [LogError, BasicNack False])"
  by (simp add: process_frame_def on_exception_def)

theorem malformed_input_exits_witness:
  "process_frame env_no_image Undecodable = [LogError, BasicNack False]
   \<and> fm_frame message_without_frame = None
   \<and> process_frame env_store_up (JsonMessage message_without_frame) = [BasicAck]
   \<and> fm_frame message0 = Some ''AAAA'' \<and> decode_image env_no_image ''AAAA'' = DecodeNone
   \<and> process_frame env_no_image (JsonMessage message0) = [BasicAck]
   \<and> decode_image env_decode_raises ''AAAA'' = DecodeRaises
   \<and> process_frame env_decode_raises (JsonMessage message0) = [LogError, BasicNack False]"
  using malformed_input_exits [of env_no_image message0 "''AAAA''"]
    malformed_input_exits [of env_store_up message_without_frame "''AAAA''"]
    malformed_input_exits [of env_decode_raises message0 "''AAAA''"]
  by (simp add: message0_def message_without_frame_def env_no_image_def env_decode_raises_def)

text \<open>
  The claim as stated fails: a body that does not parse is negatively acknowledged, not
  acknowledged.
\<close>

theorem undecodable_message_counterexample:
  "process_frame env_store_up Undecodable = [LogError, BasicNack False]
   \<and> BasicAck \<notin> set (process_frame env_store_up Undecodable)"
  by (simp add: process_frame_def on_exception_def)

section \<open>Startup connections: bounded retry\<close>

lemma streaming_all_fail_from:
  assumes "\<And>k. \<not> connect_ok k" and "retry_count < max_retries"
  shows "streaming_retry_loop connect_ok max_retries retry_count =
     (concat (replicate (max_retries - retry_count - 1) [ConnAttempt, ConnLogWarning, ConnSleep 2])
        @ [ConnAttempt, ConnLogError], Raised)"
  using assms(2)
proof (induction "max_retries - retry_count" arbitrary: retry_count)
  case 0
  then show ?case by simp
next
  case (Suc d)
  show ?case
  proof (cases "Suc retry_count < max_retries")
    case True
    from Suc.hyps(2) have "d = max_retries - (Suc retry_count)" by simp
    from Suc.hyps(1) [OF this True]
    have ih: "streaming_retry_loop connect_ok max_retries (Suc retry_count) =
      (concat (replicate (max_retries - (Suc retry_count) - 1) [ConnAttempt, ConnLogWarning, ConnSleep 2])
        @ [ConnAttempt, ConnLogError], Raised)" .
    have rep: "max_retries - Suc retry_count = Suc (max_retries - Suc (Suc retry_count))"
      using True by simp
    show ?thesis
      using True Suc.prems assms(1)
      by (subst streaming_retry_loop.simps) (simp add: ih rep del: streaming_retry_loop.simps)
  next
    case False
    with Suc.prems have "max_retries - retry_count - 1 = 0" by simp
    then show ?thesis
      using False Suc.prems assms(1)
      by (subst streaming_retry_loop.simps) (simp del: streaming_retry_loop.simps)
  qed
qed

lemma streaming_attempts_bound:
  "attempts (fst (streaming_retry_loop connect_ok max_retries retry_count)) \<le> max_retries - retry_count"
proof (induction connect_ok max_retries retry_count rule: streaming_retry_loop.induct)
  case (1 connect_ok max_retries retry_count)
  show ?case
  proof (cases "retry_count < max_retries \<and> \<not> connect_ok retry_count \<and> Suc retry_count < max_retries")
    case True
    then have ih: "attempts (fst (streaming_retry_loop connect_ok max_retries (Suc retry_count)))
        \<le> max_retries - (Suc retry_count)"
      using "1.IH" by simp
    show ?thesis
      using True ih
      by (subst streaming_retry_loop.simps)
         (auto simp: attempts_def split: prod.splits simp del: streaming_retry_loop.simps)
  next
    case False
    then show ?thesis
      by (subst streaming_retry_loop.simps)
         (auto simp: attempts_def simp del: streaming_retry_loop.simps)
  qed
qed

lemma streaming_never_falls_through:
  "retry_count < max_retries \<Longrightarrow>
   snd (streaming_retry_loop connect_ok max_retries retry_count) \<noteq> FellThrough"
proof (induction connect_ok max_retries retry_count rule: streaming_retry_loop.induct)
  case (1 connect_ok max_retries retry_count)
  show ?case
    using 1
    by (subst streaming_retry_loop.simps)
       (auto split: prod.splits simp del: streaming_retry_loop.simps)
qed

lemma detector_all_fail_from:
  assumes "\<And>k. \<not> connect_ok k"
  shows "detector_retry_loop connect_ok max_retries retry_count =
     (concat (replicate (max_retries - retry_count) [ConnAttempt, ConnSleep 2]), FellThrough)"
proof (induction "max_retries - retry_count" arbitrary: retry_count)
  case 0
  then show ?case by simp
next
  case (Suc d)
  from Suc.hyps(2) have lt: "retry_count < max_retries" and "d = max_retries - (Suc retry_count)"
    by simp_all
  from Suc.hyps(1) [OF this(2)]
  have ih: "detector_retry_loop connect_ok max_retries (Suc retry_count) =
     (concat (replicate (max_retries - (Suc retry_count)) [ConnAttempt, ConnSleep 2]), FellThrough)" .
  have rep: "max_retries - retry_count = Suc (max_retries - (Suc retry_count))"
    using lt by simp
  show ?case
    using lt assms
    by (subst detector_retry_loop.simps) (simp add: ih rep del: detector_retry_loop.simps)
qed

lemma detector_attempts_bound:
  "attempts (fst (detector_retry_loop connect_ok max_retries retry_count)) \<le> max_retries - retry_count"
proof (induction connect_ok max_retries retry_count rule: detector_retry_loop.induct)
  case (1 connect_ok max_retries retry_count)
  show ?case
  proof (cases "retry_count < max_retries \<and> \<not> connect_ok retry_count")
    case True
    then have ih: "attempts (fst (detector_retry_loop connect_ok max_retries (Suc retry_count)))
        \<le> max_retries - (Suc retry_count)"
      using "1.IH" by simp
    show ?thesis
      using True ih
      by (subst detector_retry_loop.simps)
         (auto simp: attempts_def split: prod.splits simp del: detector_retry_loop.simps)
  next
    case False
    then show ?thesis
      by (subst detector_retry_loop.simps)
         (auto simp: attempts_def simp del: detector_retry_loop.simps)
  qed
qed


lemma streaming_main_not_aborted: "snd (streaming_main db_ok mq_ok) \<noteq> ProcessAborted"
  by (simp add: streaming_main_def split: prod.splits option.splits)

lemma streaming_main_db_raised:
  "snd (StreamingManager_connect_db db_ok) = Raised \<Longrightarrow> snd (streaming_main db_ok mq_ok) = Serving None"
  by (auto simp: streaming_main_def StreamingManager_init_def split: prod.splits conn_result.splits)

lemma streaming_main_mq_raised:
  "snd (StreamingManager_connect_rabbitmq mq_ok) = Raised \<Longrightarrow> snd (streaming_main db_ok mq_ok) = Serving None"
  by (auto simp: streaming_main_def StreamingManager_init_def split: prod.splits conn_result.splits)

lemma StreamingManager_connect_all_fail:
  assumes "\<And>k. \<not> connect_ok k"
  shows "streaming_retry_loop connect_ok 5 0 =
     ([ConnAttempt, ConnLogWarning, ConnSleep 2, ConnAttempt, ConnLogWarning, ConnSleep 2,
       ConnAttempt, ConnLogWarning, ConnSleep 2, ConnAttempt, ConnLogWarning, ConnSleep 2,
       ConnAttempt, ConnLogError], Raised)"
  using streaming_all_fail_from [of connect_ok 0 5, OF assms]
  by (simp add: numeral_eq_Suc del: streaming_retry_loop.simps)

lemma ViolationDetector_connect_all_fail:
  assumes "\<And>k. \<not> connect_ok k"
  shows "detector_retry_loop connect_ok 5 0 =
     ([ConnAttempt, ConnSleep 2, ConnAttempt, ConnSleep 2, ConnAttempt, ConnSleep 2,
       ConnAttempt, ConnSleep 2, ConnAttempt, ConnSleep 2], FellThrough)"
  using detector_all_fail_from [of connect_ok 5 0, OF assms]
  by (simp add: numeral_eq_Suc del: detector_retry_loop.simps)

text \<open>
  What the detection service's loop returns when every attempt fails: it leaves the
  \<^verbatim>\<open>while\<close> and returns without a connection and without raising.
\<close>

lemma ViolationDetector_connect_db_exhausted:
  assumes "\<And>k. \<not> connect_ok k"
  shows "snd (ViolationDetector_connect_db connect_ok) = FellThrough"
  by (simp add: ViolationDetector_connect_db_def ViolationDetector_connect_all_fail [OF assms]
      del: detector_retry_loop.simps)

text \<open>
  Claim C4, as amended. Each of the four startup connection functions makes at most 5
  attempts. When every attempt fails, the streaming service's \<open>connect_db\<close> and
  \<open>connect_rabbitmq\<close> make exactly 5 attempts with a 2-second sleep between consecutive
  attempts (4 sleeps) and then raise to their caller; the construction of the manager
  fails, the module logs it, and the process goes on to run the HTTP application with no
  manager: it is not aborted. The detection service's \<open>connect_db\<close> and
  \<open>connect_rabbitmq\<close> make exactly 5 attempts, each followed by a 2-second sleep.
\<close>

theorem startup_retry_bounded:
  "attempts (fst (StreamingManager_connect_db ok)) \<le> 5
   \<and> attempts (fst (StreamingManager_connect_rabbitmq ok)) \<le> 5
   \<and> attempts (fst (ViolationDetector_connect_db ok)) \<le> 5
   \<and> attempts (fst (ViolationDetector_connect_rabbitmq ok)) \<le> 5
   \<and> snd (streaming_main db_ok mq_ok) \<noteq> ProcessAborted
   \<and> ((\<forall>k. \<not> ok k) \<longrightarrow>
        attempts (fst (StreamingManager_connect_db ok)) = 5
        \<and> sleeps (fst (StreamingManager_connect_db ok)) = [2, 2, 2, 2]
        \<and> snd (StreamingManager_connect_db ok) = Raised
        \<and> attempts (fst (StreamingManager_connect_rabbitmq ok)) = 5
        \<and> sleeps (fst (StreamingManager_connect_rabbitmq ok)) = [2, 2, 2, 2]
        \<and> snd (StreamingManager_connect_rabbitmq ok) = Raised
        \<and> snd (streaming_main ok mq_ok) = Serving None
        \<and> snd (streaming_main db_ok ok) = Serving None
        \<and> attempts (fst (ViolationDetector_connect_db ok)) = 5
        \<and> sleeps (fst (ViolationDetector_connect_db ok)) = [2, 2, 2, 2, 2]
        \<and> attempts (fst (ViolationDetector_connect_rabbitmq ok)) = 5
        \<and> sleeps (fst (ViolationDetector_connect_rabbitmq ok)) = [2, 2, 2, 2, 2])"
proof -
  have bounds: "attempts (fst (StreamingManager_connect_db ok)) \<le> 5"
    "attempts (fst (StreamingManager_connect_rabbitmq ok)) \<le> 5"
    "attempts (fst (ViolationDetector_connect_db ok)) \<le> 5"
    "attempts (fst (ViolationDetector_connect_rabbitmq ok)) \<le> 5"
    using streaming_attempts_bound [of ok 5 0] detector_attempts_bound [of ok 5 0]
    by (simp_all add: StreamingManager_connect_db_def StreamingManager_connect_rabbitmq_def
        ViolationDetector_connect_db_def ViolationDetector_connect_rabbitmq_def
        del: streaming_retry_loop.simps detector_retry_loop.simps)
  have alive: "snd (streaming_main db_ok mq_ok) \<noteq> ProcessAborted"
    by (rule streaming_main_not_aborted)
  have exhausted: "attempts (fst (StreamingManager_connect_db ok)) = 5
        \<and> sleeps (fst (StreamingManager_connect_db ok)) = [2, 2, 2, 2]
        \<and> snd (StreamingManager_connect_db ok) = Raised
        \<and> attempts (fst (StreamingManager_connect_rabbitmq ok)) = 5
        \<and> sleeps (fst (StreamingManager_connect_rabbitmq ok)) = [2, 2, 2, 2]
        \<and> snd (StreamingManager_connect_rabbitmq ok) = Raised
        \<and> snd (streaming_main ok mq_ok) = Serving None
        \<and> snd (streaming_main db_ok ok) = Serving None
        \<and> attempts (fst (ViolationDetector_connect_db ok)) = 5
        \<and> sleeps (fst (ViolationDetector_connect_db ok)) = [2, 2, 2, 2, 2]
        \<and> attempts (fst (ViolationDetector_connect_rabbitmq ok)) = 5
        \<and> sleeps (fst (ViolationDetector_connect_rabbitmq ok)) = [2, 2, 2, 2, 2]"
    if fail: "\<forall>k. \<not> ok k"
  proof -
    from fail have f: "\<And>k. \<not> ok k" by simp
    note s = StreamingManager_connect_all_fail [of ok, OF f]
    note d = ViolationDetector_connect_all_fail [of ok, OF f]
    have raised: "snd (StreamingManager_connect_db ok) = Raised"
      "snd (StreamingManager_connect_rabbitmq ok) = Raised"
      by (simp_all add: StreamingManager_connect_db_def StreamingManager_connect_rabbitmq_def s
          del: streaming_retry_loop.simps)
    show ?thesis
      using streaming_main_db_raised [OF raised(1), of mq_ok]
        streaming_main_mq_raised [OF raised(2), of db_ok]
      by (simp add: StreamingManager_connect_db_def StreamingManager_connect_rabbitmq_def
          ViolationDetector_connect_db_def ViolationDetector_connect_rabbitmq_def s d
          attempts_def sleeps_def
          del: streaming_retry_loop.simps detector_retry_loop.simps)
  qed
  from bounds alive exhausted show ?thesis by blast
qed

theorem startup_retry_bounded_witness:
  "(\<forall>k. \<not> never_connects k)
   \<and> attempts (fst (StreamingManager_connect_db never_connects)) = 5
   \<and> sleeps (fst (StreamingManager_connect_db never_connects)) = [2, 2, 2, 2]
   \<and> snd (StreamingManager_connect_db never_connects) = Raised
   \<and> snd (streaming_main never_connects always_connects) = Serving None
   \<and> attempts (fst (ViolationDetector_connect_db never_connects)) = 5
   \<and> sleeps (fst (ViolationDetector_connect_db never_connects)) = [2, 2, 2, 2, 2]"
  using startup_retry_bounded [of never_connects never_connects always_connects]
  by (simp add: never_connects_def)

text \<open>
  The claim as stated fails: with the store unreachable at all 5 attempts, the streaming
  service's process is not aborted; it ends its startup by running the HTTP application.
\<close>

theorem startup_exhaustion_counterexample:
  "snd (StreamingManager_connect_db never_connects) = Raised
   \<and> attempts (fst (StreamingManager_connect_db never_connects)) = 5
   \<and> snd (streaming_main never_connects always_connects) = Serving None
   \<and> snd (streaming_main never_connects always_connects) \<noteq> ProcessAborted
   \<and> last (fst (streaming_main never_connects always_connects)) = AppRun"
  by (simp add: streaming_main_def StreamingManager_init_def StreamingManager_connect_db_def
      attempts_def never_connects_def)

section \<open>Query endpoints\<close>

text \<open>
  Claim C5, as amended. A raising query issued directly by \<open>get_all_violations\<close>,
  \<open>get_violation_details\<close>, \<open>get_statistics\<close> or \<open>get_video_summary\<close> (its first/last
  query) is answered with status 500 and the body \<open>{error: message}\<close>, and so is every
  endpoint that reads the manager when the manager was never bound. The two helpers
  \<open>get_violation_count_from_db\<close> and \<open>get_violations_from_db\<close> catch a raising query
  themselves and return \<open>0\<close> and \<open>[]\<close>: \<open>get_violations\<close> answers 200 whatever the store
  does, with \<open>0\<close> or \<open>[]\<close> in the place of the failed query, and \<open>get_video_summary\<close>
  reports a total of \<open>0\<close> when only its count query fails.
\<close>

theorem query_error_responses:
  "(counts_per_video (db :: 'row store) = Inl e \<longrightarrow> get_all_violations (Some m) db = (ErrorBody e, 500))
   \<and> (row_by_id db violation_id = Inl e \<longrightarrow>
        get_violation_details (Some m) db violation_id = (ErrorBody e, 500))
   \<and> (first_last_by_video db video_name = Inl e \<longrightarrow>
        get_video_summary (Some m) db video_name = (ErrorBody e, 500))
   \<and> (total_violations db = Inl e \<longrightarrow> get_statistics (Some m) db = (ErrorBody e, 500))
   \<and> (total_violations db = Inr (Some n) \<and> videos_with_violations db = Inl e \<longrightarrow>
        get_statistics (Some m) db = (ErrorBody e, 500))
   \<and> (total_violations db = Inr (Some n) \<and> videos_with_violations db = Inr (Some n')
        \<and> violation_types db = Inl e \<longrightarrow>
        get_statistics (Some m) db = (ErrorBody e, 500))
   \<and> get_violations None db video_name = (ErrorBody name_error, 500)
   \<and> get_all_violations None db = (ErrorBody name_error, 500)
   \<and> (get_latest_detection None video_name :: 'row response) = (ErrorBody name_error, 500)
   \<and> get_video_summary None db video_name = (ErrorBody name_error, 500)
   \<and> get_violation_details None db violation_id = (ErrorBody name_error, 500)
   \<and> get_statistics None db = (ErrorBody name_error, 500)
   \<and> snd (get_violations (Some m) db video_name) = 200
   \<and> (count_by_video db video_name = Inl e \<longrightarrow>
        get_violations (Some m) db video_name =
          (ViolationsBody video_name 0 (get_violations_from_db db video_name 100), 200))
   \<and> (list_by_video db video_name 100 = Inl e \<longrightarrow>
        get_violations (Some m) db video_name =
          (ViolationsBody video_name (get_violation_count_from_db db video_name) [], 200))
   \<and> (count_by_video db video_name = Inl e \<and> first_last_by_video db video_name = Inr (Some (a, b)) \<longrightarrow>
        get_video_summary (Some m) db video_name = (SummaryBody video_name 0 a b, 200))"
  by (simp add: get_all_violations_def get_violation_details_def get_video_summary_def
      get_statistics_def get_violations_def get_latest_detection_def
      get_violation_count_from_db_def get_violations_from_db_def)

theorem query_error_responses_witness:
  "counts_per_video store_down = Inl ''connection already closed''
   \<and> get_all_violations (Some new_manager) store_down = (ErrorBody ''connection already closed'', 500)
   \<and> get_violation_details (Some new_manager) store_down 7 = (ErrorBody ''connection already closed'', 500)
   \<and> get_video_summary (Some new_manager) store_down ''video1'' = (ErrorBody ''connection already closed'', 500)
   \<and> get_statistics (Some new_manager) store_down = (ErrorBody ''connection already closed'', 500)
   \<and> get_violations (Some new_manager) store_down ''video1'' = (ViolationsBody ''video1'' 0 [], 200)"
proof -
  note t = query_error_responses [of store_down "''connection already closed''" new_manager 7
      "''video1''" 0 0 None None]
  have h: "counts_per_video store_down = Inl ''connection already closed''"
    "row_by_id store_down 7 = Inl ''connection already closed''"
    "first_last_by_video store_down ''video1'' = Inl ''connection already closed''"
    "total_violations store_down = Inl ''connection already closed''"
    "count_by_video store_down ''video1'' = Inl ''connection already closed''"
    by (simp_all add: store_down_def)
  have l: "get_violations_from_db store_down ''video1'' 100 = []"
    by (simp add: get_violations_from_db_def store_down_def)
  from t h have a: "get_all_violations (Some new_manager) store_down = (ErrorBody ''connection already closed'', 500)"
    by blast
  from t h have b: "get_violation_details (Some new_manager) store_down 7 = (ErrorBody ''connection already closed'', 500)"
    by blast
  from t h have c: "get_video_summary (Some new_manager) store_down ''video1'' = (ErrorBody ''connection already closed'', 500)"
    by blast
  from t h have d: "get_statistics (Some new_manager) store_down = (ErrorBody ''connection already closed'', 500)"
    by blast
  from t h have "get_violations (Some new_manager) store_down ''video1'' =
          (ViolationsBody ''video1'' 0 (get_violations_from_db store_down ''video1'' 100), 200)"
    by blast
  then have e: "get_violations (Some new_manager) store_down ''video1'' = (ViolationsBody ''video1'' 0 [], 200)"
    by (simp only: l)
  from h(1) a b c d e show ?thesis by (intro conjI)
qed

text \<open>
  The claim as stated fails: with both store queries raising, \<open>get_violations\<close> answers
  200 with a total of 0 and an empty list.
\<close>

theorem failing_store_query_counterexample:
  "count_by_video store_down ''video1'' = Inl ''connection already closed''
   \<and> list_by_video store_down ''video1'' 100 = Inl ''connection already closed''
   \<and> get_violations (Some new_manager) store_down ''video1'' = (ViolationsBody ''video1'' 0 [], 200)"
  by (simp add: store_down_def get_violations_def get_violation_count_from_db_def
      get_violations_from_db_def)

section \<open>Aggregate state\<close>

lemma process_detection_complete:
  assumes "rd_video_name message = Some v" and "rd_violation_count message = Some c"
  shows "fst (process_detection self (JsonResult message)) =
     self\<lparr>latest_detections := (latest_detections self)(v \<mapsto> message),
           video_violations := (video_violations self)(v \<mapsto> counter_of self v + c)\<rparr>"
  using assms by (cases "video_violations self v") (simp_all add: process_detection_def counter_of_def Let_def)

lemma consume_counter:
  assumes "list_all complete_result messages"
  shows "video_violations (consume self (map JsonResult messages)) v =
     (if results_of_video v messages = [] then video_violations self v
      else Some (counter_of self v + sum_list (map violation_count_of (results_of_video v messages))))"
  using assms
proof (induction messages arbitrary: self)
  case Nil
  then show ?case by (simp add: results_of_video_def)
next
  case (Cons message messages)
  from Cons.prems obtain w c where w: "rd_video_name message = Some w"
    and c: "rd_violation_count message = Some c"
    by (auto simp: complete_result_def)
  from Cons.prems have rest: "list_all complete_result messages" by simp
  define self' where "self' = fst (process_detection self (JsonResult message))"
  have step: "self' = self\<lparr>latest_detections := (latest_detections self)(w \<mapsto> message),
           video_violations := (video_violations self)(w \<mapsto> counter_of self w + c)\<rparr>"
    unfolding self'_def by (rule process_detection_complete [OF w c])
  have ih: "video_violations (consume self' (map JsonResult messages)) v =
     (if results_of_video v messages = [] then video_violations self' v
      else Some (counter_of self' v + sum_list (map violation_count_of (results_of_video v messages))))"
    by (rule Cons.IH [OF rest])
  have unfold: "consume self (map JsonResult (message # messages)) = consume self' (map JsonResult messages)"
    by (simp add: self'_def)
  have vv: "video_violations self' v =
      (if w = v then Some (counter_of self v + c) else video_violations self v)"
    by (simp add: step)
  then have co: "counter_of self' v = (if w = v then counter_of self v + c else counter_of self v)"
    by (simp add: counter_of_def)
  have vc: "violation_count_of message = c"
    by (simp add: violation_count_of_def c)
  show ?case
    unfolding unfold
    by (simp add: ih vv co vc results_of_video_def w)
qed

lemma consume_latest:
  assumes "list_all complete_result messages"
  shows "latest_detections (consume self (map JsonResult messages)) v =
     (if results_of_video v messages = [] then latest_detections self v
      else Some (last (results_of_video v messages)))"
  using assms
proof (induction messages arbitrary: self)
  case Nil
  then show ?case by (simp add: results_of_video_def)
next
  case (Cons message messages)
  from Cons.prems obtain w c where w: "rd_video_name message = Some w"
    and c: "rd_violation_count message = Some c"
    by (auto simp: complete_result_def)
  from Cons.prems have rest: "list_all complete_result messages" by simp
  define self' where "self' = fst (process_detection self (JsonResult message))"
  have step: "self' = self\<lparr>latest_detections := (latest_detections self)(w \<mapsto> message),
           video_violations := (video_violations self)(w \<mapsto> counter_of self w + c)\<rparr>"
    unfolding self'_def by (rule process_detection_complete [OF w c])
  have ih: "latest_detections (consume self' (map JsonResult messages)) v =
     (if results_of_video v messages = [] then latest_detections self' v
      else Some (last (results_of_video v messages)))"
    by (rule Cons.IH [OF rest])
  have unfold: "consume self (map JsonResult (message # messages)) = consume self' (map JsonResult messages)"
    by (simp add: self'_def)
  have ld: "latest_detections self' v =
      (if w = v then Some message else latest_detections self v)"
    by (simp add: step)
  show ?case
    unfolding unfold
    by (simp add: ih ld results_of_video_def w)
qed

text \<open>
  Claim C8. Let a sequence of complete result messages, of any videos, be consumed in
  order, and let a video have at least one message among them. Started from the empty
  caches of a new manager, the video's running counter afterwards is the sum of the
  \<open>violation_count\<close> fields of the video's messages, and its latest-result entry is the
  last of them. Started from any state, the counter is the value it had before (0 if
  the video had not been seen) plus that sum.
\<close>

theorem counter_is_sum_of_violation_counts:
  assumes "list_all complete_result messages" and "results_of_video v messages \<noteq> []"
  shows "video_violations (consume new_manager (map JsonResult messages)) v =
           Some (sum_list (map violation_count_of (results_of_video v messages)))
    \<and> latest_detections (consume new_manager (map JsonResult messages)) v =
           Some (last (results_of_video v messages))
    \<and> video_violations (consume self (map JsonResult messages)) v =
           Some (counter_of self v + sum_list (map violation_count_of (results_of_video v messages)))
    \<and> counter_of new_manager v = 0"
  using assms consume_counter [OF assms(1), of new_manager v] consume_counter [OF assms(1), of self v]
    consume_latest [OF assms(1), of new_manager v]
  by (simp add: counter_of_def new_manager_def)

theorem counter_is_sum_of_violation_counts_witness:
  "list_all complete_result [result_a1, result_b1, result_a2]
   \<and> results_of_video ''a'' [result_a1, result_b1, result_a2] = [result_a1, result_a2]
   \<and> video_violations (consume new_manager (map JsonResult [result_a1, result_b1, result_a2])) ''a'' = Some 3
   \<and> latest_detections (consume new_manager (map JsonResult [result_a1, result_b1, result_a2])) ''a''
        = Some result_a2"
proof -
  have a: "list_all complete_result [result_a1, result_b1, result_a2]"
    by (simp add: complete_result_def result_a1_def result_b1_def result_a2_def)
  have b: "results_of_video ''a'' [result_a1, result_b1, result_a2] = [result_a1, result_a2]"
    by (simp add: results_of_video_def result_a1_def result_b1_def result_a2_def)
  then have b': "results_of_video ''a'' [result_a1, result_b1, result_a2] \<noteq> []" by simp
  have s: "sum_list (map violation_count_of [result_a1, result_a2]) = 3"
    by (simp add: violation_count_of_def result_a1_def result_a2_def)
  from counter_is_sum_of_violation_counts [OF a b', of new_manager] a b s show ?thesis
    by simp
qed

section \<open>Frame reader: decimation\<close>

lemma frame_skip_of_floor: "frame_skip_of fps max_fps = max 1 \<lfloor>fps / of_int max_fps\<rfloor>"
proof (cases "0 \<le> fps / of_int max_fps")
  case True
  then show ?thesis by (simp add: frame_skip_of_def py_int_def)
next
  case False
  then have neg: "fps / of_int max_fps < 0" by simp
  then have "\<lfloor>fps / of_int max_fps\<rfloor> \<le> 0" and "\<lceil>fps / of_int max_fps\<rceil> \<le> 0"
    by (simp_all add: floor_le_iff ceiling_le_iff)
  with False show ?thesis by (simp add: frame_skip_of_def py_int_def)
qed

lemma frame_skip_of_pos: "1 \<le> frame_skip_of fps max_fps"
  by (simp add: frame_skip_of_def)

lemma read_loop_ids:
  "map event_id (read_loop send_ok pos_msec video_name frame_skip k frames) =
     filter (\<lambda>i. i mod frame_skip = 0) [k + 1..k + int (length frames)]"
proof (induction frames arbitrary: k)
  case Nil
  then show ?case by simp
next
  case (Cons frame rest)
  have up: "[k + 1..k + int (length (frame # rest))] = (k + 1) # [k + 1 + 1..k + 1 + int (length rest)]"
  proof -
    have "k + int (length (frame # rest)) = k + 1 + int (length rest)" by simp
    moreover have "[k + 1..k + 1 + int (length rest)] = (k + 1) # [k + 1 + 1..k + 1 + int (length rest)]"
      by (rule upto_rec1) simp
    ultimately show ?thesis by (simp only:)
  qed
  have id: "event_id (publish_frame send_ok frame (k + 1) video_name (pos_msec (k + 1))) = k + 1"
    by (simp add: publish_frame_def)
  show ?case
    unfolding up by (simp add: Let_def Cons.IH id del: upto.simps)
qed

lemma read_loop_published:
  "published_frames (read_loop send_ok pos_msec video_name frame_skip k frames) =
     map (\<lambda>i. \<lparr>pf_frame_id = i, pf_video_name = video_name, pf_timestamp = pos_msec i,
                pf_frame = frames ! nat (i - k - 1)\<rparr>)
         (filter (\<lambda>i. i mod frame_skip = 0 \<and> send_ok i) [k + 1..k + int (length frames)])"
proof (induction frames arbitrary: k)
  case Nil
  then show ?case by simp
next
  case (Cons frame rest)
  have up: "[k + 1..k + int (length (frame # rest))] = (k + 1) # [k + 1 + 1..k + 1 + int (length rest)]"
  proof -
    have "k + int (length (frame # rest)) = k + 1 + int (length rest)" by simp
    moreover have "[k + 1..k + 1 + int (length rest)] = (k + 1) # [k + 1 + 1..k + 1 + int (length rest)]"
      by (rule upto_rec1) simp
    ultimately show ?thesis by (simp only:)
  qed
  have shift: "map (\<lambda>i. \<lparr>pf_frame_id = i, pf_video_name = video_name, pf_timestamp = pos_msec i,
                pf_frame = (frame # rest) ! nat (i - k - 1)\<rparr>)
         (filter (\<lambda>i. i mod frame_skip = 0 \<and> send_ok i) [k + 1 + 1..k + 1 + int (length rest)])
       = map (\<lambda>i. \<lparr>pf_frame_id = i, pf_video_name = video_name, pf_timestamp = pos_msec i,
                pf_frame = rest ! nat (i - (k + 1) - 1)\<rparr>)
         (filter (\<lambda>i. i mod frame_skip = 0 \<and> send_ok i) [k + 1 + 1..k + 1 + int (length rest)])"
  proof (rule map_cong [OF refl])
    fix i assume "i \<in> set (filter (\<lambda>i. i mod frame_skip = 0 \<and> send_ok i) [k + 1 + 1..k + 1 + int (length rest)])"
    then have "k + 2 \<le> i" by simp
    then have "nat (i - k - 1) = Suc (nat (i - (k + 1) - 1))" by simp
    then show "\<lparr>pf_frame_id = i, pf_video_name = video_name, pf_timestamp = pos_msec i,
                pf_frame = (frame # rest) ! nat (i - k - 1)\<rparr>
       = \<lparr>pf_frame_id = i, pf_video_name = video_name, pf_timestamp = pos_msec i,
                pf_frame = rest ! nat (i - (k + 1) - 1)\<rparr>"
      by simp
  qed
  have here: "published_frames [publish_frame send_ok frame (k + 1) video_name (pos_msec (k + 1))] =
      (if send_ok (k + 1)
       then [\<lparr>pf_frame_id = k + 1, pf_video_name = video_name, pf_timestamp = pos_msec (k + 1),
               pf_frame = frame\<rparr>]
       else [])"
    by (simp add: publish_frame_def)
  have app: "published_frames (xs @ ys) = published_frames xs @ published_frames ys" for xs ys :: "'a reader_event list"
    by (induction xs rule: published_frames.induct) simp_all
  define f where "f = (\<lambda>i. \<lparr>pf_frame_id = i, pf_video_name = video_name, pf_timestamp = pos_msec i,
                pf_frame = (frame # rest) ! nat (i - k - 1)\<rparr>)"
  define g where "g = (\<lambda>i. \<lparr>pf_frame_id = i, pf_video_name = video_name, pf_timestamp = pos_msec i,
                pf_frame = rest ! nat (i - (k + 1) - 1)\<rparr>)"
  define P where "P = (\<lambda>i. i mod frame_skip = 0 \<and> send_ok i)"
  define tl where "tl = [k + 1 + 1..k + 1 + int (length rest)]"
  have fg: "map f (filter P tl) = map g (filter P tl)"
    unfolding f_def g_def P_def tl_def by (rule shift)
  have f1: "f (k + 1) = \<lparr>pf_frame_id = k + 1, pf_video_name = video_name,
      pf_timestamp = pos_msec (k + 1), pf_frame = frame\<rparr>"
    by (simp add: f_def)
  have ih: "published_frames (read_loop send_ok pos_msec video_name frame_skip (k + 1) rest) =
      map g (filter P tl)"
    unfolding g_def P_def tl_def by (rule Cons.IH)
  have lhs: "published_frames (read_loop send_ok pos_msec video_name frame_skip k (frame # rest)) =
      (if (k + 1) mod frame_skip = 0 \<and> send_ok (k + 1) then [f (k + 1)] else []) @ map g (filter P tl)"
    by (simp add: Let_def app here ih f1)
  have rhs: "map f (filter P ((k + 1) # tl)) =
      (if (k + 1) mod frame_skip = 0 \<and> send_ok (k + 1) then [f (k + 1)] else []) @ map g (filter P tl)"
    by (simp add: fg) (simp add: P_def)
  have goal_rhs: "map (\<lambda>i. \<lparr>pf_frame_id = i, pf_video_name = video_name, pf_timestamp = pos_msec i,
                pf_frame = (frame # rest) ! nat (i - k - 1)\<rparr>)
         (filter (\<lambda>i. i mod frame_skip = 0 \<and> send_ok i) [k + 1..k + int (length (frame # rest))])
       = map f (filter P ((k + 1) # tl))"
    unfolding up f_def P_def tl_def by (rule refl)
  show ?case
    by (simp only: goal_rhs lhs rhs)
qed

lemma sorted_filter_upto: "sorted_wrt (<) (filter P [i..j])"
  by (rule sorted_wrt_filter) (simp add: strict_sorted_iff)

text \<open>
  Claim C7. For a source that opens, with native rate \<open>fps\<close> and a non-zero target
  rate \<open>max_fps\<close>, the stride is \<open>max 1 \<lfloor>fps / max_fps\<rfloor>\<close> and \<open>read_video\<close> returns.
  Counting the frames read from 1, \<open>publish_frame\<close> is called for exactly the frames
  whose index is a multiple of the stride, in order; each message that gets through
  carries its frame's index as \<open>frame_id\<close> together with that very frame, and the
  published \<open>frame_id\<close>s are strictly increasing. (Every index lies in
  \<open>1 .. number of frames\<close>, so the numbering starts at 1 and the decimated positions are
  the gaps; the first published number is the stride itself.)
\<close>

theorem read_video_publishes_stride_multiples:
  assumes "max_fps \<noteq> 0"
  shows "frame_skip_of fps max_fps = max 1 \<lfloor>fps / of_int max_fps\<rfloor>
    \<and> (\<exists>events. read_video send_ok pos_msec (Opened fps frames) video_name max_fps = Inr events
         \<and> map event_id events =
             filter (\<lambda>i. i mod frame_skip_of fps max_fps = 0) [1..int (length frames)]
         \<and> published_frames events =
             map (\<lambda>i. \<lparr>pf_frame_id = i, pf_video_name = video_name, pf_timestamp = pos_msec i,
                        pf_frame = frames ! nat (i - 1)\<rparr>)
                 (filter (\<lambda>i. i mod frame_skip_of fps max_fps = 0 \<and> send_ok i)
                         [1..int (length frames)])
         \<and> sorted_wrt (<) (map pf_frame_id (published_frames events)))"
proof -
  define events where
    "events = read_loop send_ok pos_msec video_name (frame_skip_of fps max_fps) 0 frames"
  have r: "read_video send_ok pos_msec (Opened fps frames) video_name max_fps = Inr events"
    using assms by (simp add: read_video_def events_def)
  have ids: "map event_id events =
      filter (\<lambda>i. i mod frame_skip_of fps max_fps = 0) [1..int (length frames)]"
    unfolding events_def using read_loop_ids [of send_ok pos_msec video_name _ 0 frames] by simp
  have pub: "published_frames events =
             map (\<lambda>i. \<lparr>pf_frame_id = i, pf_video_name = video_name, pf_timestamp = pos_msec i,
                        pf_frame = frames ! nat (i - 1)\<rparr>)
                 (filter (\<lambda>i. i mod frame_skip_of fps max_fps = 0 \<and> send_ok i)
                         [1..int (length frames)])"
    unfolding events_def using read_loop_published [of send_ok pos_msec video_name _ 0 frames] by simp
  have "map pf_frame_id (published_frames events) =
      filter (\<lambda>i. i mod frame_skip_of fps max_fps = 0 \<and> send_ok i) [1..int (length frames)]"
    by (simp add: pub comp_def)
  then have srt: "sorted_wrt (<) (map pf_frame_id (published_frames events))"
    by (simp only: sorted_filter_upto)
  from r ids pub srt frame_skip_of_floor [of fps max_fps] show ?thesis by blast
qed

theorem read_video_publishes_stride_multiples_witness:
  "(5::int) \<noteq> 0
   \<and> frame_skip_of 30 5 = 6
   \<and> (\<exists>events. read_video (\<lambda>i. True) (\<lambda>i. 0) (Opened 30 frames12) ''v'' 5 = Inr events
         \<and> map event_id events = [6, 12]
         \<and> map pf_frame_id (published_frames events) = [6, 12]
         \<and> map pf_frame (published_frames events) = [106, 112])"
proof -
  have nz: "(5::int) \<noteq> 0" by simp
  have skip: "frame_skip_of 30 5 = 6"
    by (simp add: frame_skip_of_def py_int_def)
  have len: "int (length frames12) = 12"
    by (simp add: frames12_def)
  have sel: "filter (\<lambda>i. i mod 6 = 0) [1..12] = [6, 12::int]"
    by code_simp
  note t = read_video_publishes_stride_multiples [OF nz, of 30 "\<lambda>i. True" "\<lambda>i. 0" frames12 "''v''"]
  from t [unfolded skip len] obtain events where
    r: "read_video (\<lambda>i. True) (\<lambda>i. 0) (Opened 30 frames12) ''v'' 5 = Inr events"
    and ids: "map event_id events = filter (\<lambda>i. i mod 6 = 0) [1..12]"
    and pub: "published_frames events =
      map (\<lambda>i. \<lparr>pf_frame_id = i, pf_video_name = ''v'', pf_timestamp = 0,
                 pf_frame = frames12 ! nat (i - 1)\<rparr>) (filter (\<lambda>i. i mod 6 = 0 \<and> True) [1..12])"
    by blast
  have sel': "filter (\<lambda>i. i mod 6 = 0 \<and> True) [1..12] = [6, 12::int]"
    using sel by (simp only: simp_thms)
  have a: "map event_id events = [6, 12]"
    by (simp only: ids sel)
  have b: "map pf_frame_id (published_frames events) = [6, 12]"
    by (simp only: pub sel') simp
  have c: "map pf_frame (published_frames events) = [106, 112]"
    by (simp only: pub sel') (simp add: frames12_def)
  from r a b c have "\<exists>events. read_video (\<lambda>i. True) (\<lambda>i. 0) (Opened 30 frames12) ''v'' 5 = Inr events
         \<and> map event_id events = [6, 12]
         \<and> map pf_frame_id (published_frames events) = [6, 12]
         \<and> map pf_frame (published_frames events) = [106, 112]"
    by (intro exI [of _ events] conjI)
  with nz skip show ?thesis by (intro conjI)
qed

end
